theory Spec2Isabelle
  imports Complex_Main "HOL-Library.Word"
begin

section \<open>kat\_edit.py: editing a decoded object graph\<close>

text \<open>
  A shallow embedding of \<^verbatim>\<open>src/kat_edit.py\<close>. The program decodes a .NET object graph,
  shows it as JSON (\<^verbatim>\<open>to_jsonable\<close>) or assigns literals at paths (\<^verbatim>\<open>set_value\<close>), and
  encodes it again. The byte-level codec is the runtime's and is not modelled.

  Conventions of the model:
  \<^item> strings are \<open>char list\<close>, read as ASCII text: the classes \<^verbatim>\<open>\w\<close>, \<^verbatim>\<open>\d\<close>,
    \<^verbatim>\<open>isdigit\<close>, \<^verbatim>\<open>lower\<close> and the white space of \<^verbatim>\<open>int()\<close> are the ASCII ones;
  \<^item> a Python or .NET double is a value of an arbitrary type \<open>'f\<close>; the functions of
    the runtime that produce one (\<^verbatim>\<open>float(s)\<close>, \<^verbatim>\<open>float(decimal)\<close>) are parameters;
  \<^item> a C\# \<^verbatim>\<open>string\<close> that may be \<^verbatim>\<open>null\<close> is a \<open>string option\<close>.
\<close>

subsection \<open>Characters\<close>

definition is_digit :: "char \<Rightarrow> bool" where
  "is_digit c = (48 \<le> (of_char c :: nat) \<and> (of_char c :: nat) \<le> 57)"

definition is_upper :: "char \<Rightarrow> bool" where
  "is_upper c = (65 \<le> (of_char c :: nat) \<and> (of_char c :: nat) \<le> 90)"

definition is_lower :: "char \<Rightarrow> bool" where
  "is_lower c = (97 \<le> (of_char c :: nat) \<and> (of_char c :: nat) \<le> 122)"

text \<open>\<^verbatim>\<open>[A-Za-z_]\<close> and \<^verbatim>\<open>\w\<close> of the path grammar.\<close>

definition is_ident_start :: "char \<Rightarrow> bool" where
  "is_ident_start c = (is_upper c \<or> is_lower c \<or> c = CHR ''_'')"

definition is_word :: "char \<Rightarrow> bool" where
  "is_word c = (is_ident_start c \<or> is_digit c)"

definition digit_val :: "char \<Rightarrow> nat" where
  "digit_val c = of_char c - 48"






subsection \<open>Python values and .NET values\<close>


text \<open>
  What a slot of the decoded graph holds. The scalars are immediate; \<open>NRef a\<close> is a
  reference to the object at address \<open>a\<close> of the heap. \<open>NDateTime\<close> carries the
  round-trip text of the date (\<^verbatim>\<open>ToString("o")\<close>), \<open>NGuid\<close> the canonical text of the
  identifier, \<open>NDecimal\<close> the integer the decimal was built from.
\<close>

datatype 'f val =
    NNull
  | NBool bool
  | NByte "8 word"
  | NInt32 "32 word"
  | NInt64 "64 word"
  | NDouble 'f
  | NString string
  | NDecimal int
  | NDateTime string
  | NGuid string
  | NRef nat

subsection \<open>\<^verbatim>\<open>_to_net\<close>\<close>


subsection \<open>\<^verbatim>\<open>parse_value_literal\<close>\<close>




text \<open>\<open>pyfloat\<close> is \<^verbatim>\<open>float(s)\<close>, with \<open>None\<close> for \<^verbatim>\<open>ValueError\<close>.\<close>






subsection \<open>Errors\<close>

text \<open>
  Every exception the program raises, as a value:
  \<^item> \<open>InvalidPathNear r\<close> is \<^verbatim>\<open>ValueError(f"Invalid path near: {s[pos:]}")\<close>;
  \<^item> \<open>CouldNotResolvePath p\<close> is \<^verbatim>\<open>ValueError(f"Could not resolve path: {path_expr}")\<close>;
  \<^item> \<open>CannotAssignKey p\<close> is \<^verbatim>\<open>TypeError(f"Cannot assign key on {type(target)} at {path_expr}")\<close>;
  \<^item> \<open>CannotAssignIndex i\<close> is \<^verbatim>\<open>TypeError(f"Cannot assign index {key}: {e}")\<close>;
  \<^item> \<open>StoreRefused\<close> is the exception of the runtime when a typed dictionary refuses the
    value stored by \<^verbatim>\<open>target[key] = net_val\<close>, which \<^verbatim>\<open>set_value\<close> does not catch;
  \<^item> \<open>SerializationException n\<close> is raised by \<^verbatim>\<open>SerializationInfo.AddValue\<close> for a
    name that was added before.
\<close>

datatype error =
    InvalidPathNear string
  | CouldNotResolvePath string
  | CannotAssignKey string
  | CannotAssignIndex nat
  | StoreRefused
  | SerializationException string

subsection \<open>\<^verbatim>\<open>_path_token\<close> and \<^verbatim>\<open>parse_path\<close>\<close>

datatype token = Key string | Idx nat

text \<open>\<^verbatim>\<open>int(m.group("idx"))\<close> on a run of digits.\<close>

definition nat_of_digits :: "string \<Rightarrow> nat" where
  "nat_of_digits ds = foldl (\<lambda>n c. 10 * n + digit_val c) 0 ds"

text \<open>
  \<^verbatim>\<open>_path_token.match(s, pos)\<close>: the token of the alternative that matches at \<open>pos\<close> and
  \<^verbatim>\<open>m.end()\<close>. The alternatives are tried in the order of the pattern: \<^verbatim>\<open>.field\<close>,
  \<^verbatim>\<open>[index]\<close>, then the root identifier, whose \<^verbatim>\<open>^\<close> matches at position 0 only.
  \<^verbatim>\<open>\w*\<close> and \<^verbatim>\<open>\d+\<close> are greedy.
\<close>

definition path_token :: "string \<Rightarrow> nat \<Rightarrow> (token \<times> nat) option" where
  "path_token s pos =
     (let r = drop pos s in
      if r \<noteq> [] \<and> hd r = CHR ''.'' \<and> tl r \<noteq> [] \<and> is_ident_start (hd (tl r)) then
        (let name = takeWhile is_word (tl r) in Some (Key name, pos + 1 + length name))
      else if r \<noteq> [] \<and> hd r = CHR ''['' \<and> takeWhile is_digit (tl r) \<noteq> [] \<and>
              dropWhile is_digit (tl r) \<noteq> [] \<and> hd (dropWhile is_digit (tl r)) = CHR '']'' then
        (let ds = takeWhile is_digit (tl r) in Some (Idx (nat_of_digits ds), pos + 1 + length ds + 1))
      else if pos = 0 \<and> r \<noteq> [] \<and> is_ident_start (hd r) then
        (let name = takeWhile is_word r in Some (Key name, pos + length name))
      else None)"

lemma path_token_advances: "path_token s pos = Some (t, e) \<Longrightarrow> pos < e"
  by (auto simp: path_token_def Let_def is_word_def neq_Nil_conv split: if_splits)

function parse_loop :: "string \<Rightarrow> nat \<Rightarrow> token list \<Rightarrow> error + token list" where
  "parse_loop s pos tokens =
     (if pos < length s then
        (case path_token s pos of
           None \<Rightarrow> Inl (InvalidPathNear (drop pos s))
         | Some (t, e) \<Rightarrow> parse_loop s e (tokens @ [t]))
      else Inr tokens)"
  by pat_completeness auto
termination
  by (relation "measure (\<lambda>(s, pos, tokens). length s - pos)")
     (auto dest: path_token_advances)

declare parse_loop.simps [simp del]

definition parse_path :: "string \<Rightarrow> error + token list" where
  "parse_path s = parse_loop s 0 []"

subsection \<open>The helper types compiled by \<^verbatim>\<open>build_helper_types\<close>\<close>

definition IsNullOrEmpty :: "string option \<Rightarrow> bool" where
  "IsNullOrEmpty s = (case s of None \<Rightarrow> True | Some t \<Rightarrow> t = [])"



text \<open>A dictionary that keeps the order of insertion (\<^verbatim>\<open>Dictionary<string, object>\<close>
  without removals, a Python \<^verbatim>\<open>dict\<close>): \<open>set_item\<close> is \<^verbatim>\<open>d[k] = v\<close>, which replaces the
  value of a key that is there and adds the key at the end otherwise.\<close>

fun set_item :: "'k \<Rightarrow> 'v \<Rightarrow> ('k \<times> 'v) list \<Rightarrow> ('k \<times> 'v) list" where
  "set_item k v [] = [(k, v)]"
| "set_item k v (p # ps) = (if fst p = k then (k, v) # ps else p # set_item k v ps)"

definition ContainsKey :: "('k \<times> 'v) list \<Rightarrow> 'k \<Rightarrow> bool" where
  "ContainsKey d k = (k \<in> set (map fst d))"

text \<open>What the graph engine hands to an object on decode and takes from it on encode.\<close>

record 'v SerializationInfo =
  si_FullTypeName :: string
  si_AssemblyName :: string
  si_entries :: "(string \<times> 'v) list"

text \<open>\<^verbatim>\<open>KatRoundtrip.Node\<close>. \<open>Data\<close> is set by the field initialiser and never assigned
  again, so it is never \<^verbatim>\<open>null\<close>; the two strings are \<^verbatim>\<open>null\<close> after \<^verbatim>\<open>Node()\<close>.\<close>

record 'v Node =
  FullTypeName :: "string option"
  AssemblyName :: "string option"
  Data :: "(string \<times> 'v) list"

text \<open>\<^verbatim>\<open>Node(SerializationInfo info, StreamingContext context)\<close>.\<close>

definition Node_of_info :: "'v SerializationInfo \<Rightarrow> 'v Node" where
  "Node_of_info info =
     \<lparr> FullTypeName = Some (si_FullTypeName info),
       AssemblyName = Some (si_AssemblyName info),
       Data = foldl (\<lambda>d e. set_item (fst e) (snd e) d) [] (si_entries info) \<rparr>"

text \<open>\<^verbatim>\<open>info.AddValue(name, value)\<close>, which refuses a name it has.\<close>

definition AddValue :: "string \<Rightarrow> 'v \<Rightarrow> 'v SerializationInfo \<Rightarrow> error + 'v SerializationInfo" where
  "AddValue n v info =
     (if ContainsKey (si_entries info) n then Inl (SerializationException n)
      else Inr (info\<lparr>si_entries := si_entries info @ [(n, v)]\<rparr>))"

fun add_values :: "(string \<times> 'v) list \<Rightarrow> 'v SerializationInfo \<Rightarrow> error + 'v SerializationInfo" where
  "add_values [] info = Inr info"
| "add_values (kv # kvs) info =
     (case AddValue (fst kv) (snd kv) info of
        Inl e \<Rightarrow> Inl e
      | Inr info' \<Rightarrow> add_values kvs info')"

text \<open>\<^verbatim>\<open>Node.GetObjectData(info, context)\<close>.\<close>

definition GetObjectData :: "'v Node \<Rightarrow> 'v SerializationInfo \<Rightarrow> error + 'v SerializationInfo" where
  "GetObjectData this info =
     (let info1 = (if \<not> IsNullOrEmpty (FullTypeName this)
                   then info\<lparr>si_FullTypeName := the (FullTypeName this)\<rparr> else info);
          info2 = (if \<not> IsNullOrEmpty (AssemblyName this)
                   then info1\<lparr>si_AssemblyName := the (AssemblyName this)\<rparr> else info1)
      in add_values (Data this) info2)"






subsection \<open>The decoded graph\<close>

text \<open>
  The objects of the graph live in a heap, a list indexed by address, so that two slots
  can hold the same reference and an object can reach itself. The kinds of object are
  the ones the program tells apart: a \<^verbatim>\<open>KatRoundtrip.Node\<close>, a dictionary
  (\<^verbatim>\<open>IDictionary\<close>, with string keys), a sequence (list or array), a byte array, and any
  other object, known by the name of its type and its instance fields. A graph that was
  decoded holds no Python \<^verbatim>\<open>dict\<close>, so the branches for \<^verbatim>\<open>isinstance(x, dict)\<close> have no
  counterpart here.
\<close>

datatype 'f obj =
    ONode "'f val Node"
  | ODict "(string \<times> 'f val) list"
  | OList "'f val list"
  | OBytes "8 word list"
  | OOther string "(string \<times> 'f val) list"

type_synonym 'f heap = "'f obj list"

definition lookup :: "'f heap \<Rightarrow> nat \<Rightarrow> 'f obj option" where
  "lookup h a = (if a < length h then Some (h ! a) else None)"

text \<open>A graph is well formed when every reference in it is the address of an object.\<close>

definition val_ok :: "'f heap \<Rightarrow> 'f val \<Rightarrow> bool" where
  "val_ok h v = (case v of NRef a \<Rightarrow> a < length h | _ \<Rightarrow> True)"

definition slots :: "'f obj \<Rightarrow> 'f val list" where
  "slots ob =
     (case ob of
        ONode nd \<Rightarrow> map snd (Data nd)
      | ODict d \<Rightarrow> map snd d
      | OList xs \<Rightarrow> xs
      | OBytes bs \<Rightarrow> []
      | OOther tname fs \<Rightarrow> map snd fs)"

definition heap_ok :: "'f heap \<Rightarrow> bool" where
  "heap_ok h = list_all (\<lambda>ob. list_all (val_ok h) (slots ob)) h"

subsection \<open>\<^verbatim>\<open>to_jsonable\<close>\<close>

datatype 'f json =
    JNull
  | JBool bool
  | JInt int
  | JFloat 'f
  | JStr string
  | JArr "'f json list"
  | JObj "(string \<times> 'f json) list"

text \<open>The first test of \<^verbatim>\<open>conv\<close>: \<^verbatim>\<open>None\<close> and what Python holds as \<^verbatim>\<open>str\<close>, \<^verbatim>\<open>int\<close>,
  \<^verbatim>\<open>float\<close> or \<^verbatim>\<open>bool\<close> is returned as it is.\<close>

definition py_primitive :: "'f val \<Rightarrow> 'f json option" where
  "py_primitive x =
     (case x of
        NNull \<Rightarrow> Some JNull
      | NBool b \<Rightarrow> Some (JBool b)
      | NByte b \<Rightarrow> Some (JInt (uint b))
      | NInt32 w \<Rightarrow> Some (JInt (sint w))
      | NInt64 w \<Rightarrow> Some (JInt (sint w))
      | NDouble f \<Rightarrow> Some (JFloat f)
      | NString s \<Rightarrow> Some (JStr s)
      | _ \<Rightarrow> None)"

text \<open>The value-like types: \<^verbatim>\<open>x.ToString("o")\<close>, \<^verbatim>\<open>float(x)\<close>, \<^verbatim>\<open>str(x)\<close>. \<open>dec2f\<close> is
  \<^verbatim>\<open>float\<close> on a decimal.\<close>

definition value_like :: "(int \<Rightarrow> 'f) \<Rightarrow> 'f val \<Rightarrow> 'f json option" where
  "value_like dec2f x =
     (case x of
        NDateTime t \<Rightarrow> Some (JStr t)
      | NDecimal d \<Rightarrow> Some (JFloat (dec2f d))
      | NGuid g \<Rightarrow> Some (JStr g)
      | _ \<Rightarrow> None)"

text \<open>\<^verbatim>\<open>str(getattr(x, "FullTypeName", ""))\<close>: \<^verbatim>\<open>str(None)\<close> is the text \<^verbatim>\<open>None\<close>.\<close>

definition py_str :: "string option \<Rightarrow> string" where
  "py_str s = (case s of None \<Rightarrow> ''None'' | Some t \<Rightarrow> t)"

text \<open>\<^verbatim>\<open>d.update(py)\<close>.\<close>

definition dict_update :: "('k \<times> 'v) list \<Rightarrow> ('k \<times> 'v) list \<Rightarrow> ('k \<times> 'v) list" where
  "dict_update d py = foldl (\<lambda>d kv. set_item (fst kv) (snd kv) d) d py"

text \<open>
  \<^verbatim>\<open>conv\<close>, with the set \<^verbatim>\<open>seen\<close> passed in and returned. The key of an object in
  \<^verbatim>\<open>seen\<close> is \<^verbatim>\<open>RuntimeHelpers.GetHashCode(x)\<close>, the identity hash of the runtime, modelled
  as the address of the object: two objects have two keys. The boxed value-like scalars
  are fresh objects at every read; their keys are in no set and the model does not
  record them.

  The recursion of \<^verbatim>\<open>conv\<close> has no bound in the source. Here it has fuel, which a call
  on an object passes on, less one, to the calls on its slots: \<open>None\<close> is fuel used
  up, or a reference that is no address of the heap. \<open>conv_items\<close> is the loop
  \<^verbatim>\<open>for k in x.Keys: d[str(k)] = conv(x[k])\<close> on the dictionary \<open>acc\<close>, \<open>conv_list\<close> the
  loop that appends to \<^verbatim>\<open>lst\<close>.
\<close>

fun conv :: "(int \<Rightarrow> 'f) \<Rightarrow> 'f heap \<Rightarrow> nat \<Rightarrow> nat set \<Rightarrow> 'f val \<Rightarrow> ('f json \<times> nat set) option"
  and conv_items :: "(int \<Rightarrow> 'f) \<Rightarrow> 'f heap \<Rightarrow> nat \<Rightarrow> nat set \<Rightarrow> (string \<times> 'f val) list \<Rightarrow>
        (string \<times> 'f json) list \<Rightarrow> ((string \<times> 'f json) list \<times> nat set) option"
  and conv_list :: "(int \<Rightarrow> 'f) \<Rightarrow> 'f heap \<Rightarrow> nat \<Rightarrow> nat set \<Rightarrow> 'f val list \<Rightarrow>
        ('f json list \<times> nat set) option"
where
  "conv dec2f h 0 seen x = None"
| "conv dec2f h (Suc n) seen x =
     (case py_primitive x of
        Some j \<Rightarrow> Some (j, seen)
      | None \<Rightarrow>
         (case x of
            NRef a \<Rightarrow>
              if a \<in> seen then Some (JNull, seen)
              else
                (case lookup h a of
                   None \<Rightarrow> None
                 | Some (ONode nd) \<Rightarrow>
                     (case conv_items dec2f h n (insert a seen) (Data nd) [] of
                        None \<Rightarrow> None
                      | Some (py, seen') \<Rightarrow>
                          Some (JObj (dict_update
                                  [(''$original_dotnet_type'', JStr (py_str (FullTypeName nd))),
                                   (''$original_assembly'', JStr (py_str (AssemblyName nd)))] py),
                                seen'))
                 | Some (OBytes bs) \<Rightarrow> Some (JArr (map (\<lambda>b. JInt (uint b)) bs), insert a seen)
                 | Some (ODict d) \<Rightarrow>
                     (case conv_items dec2f h n (insert a seen) d [] of
                        None \<Rightarrow> None
                      | Some (py, seen') \<Rightarrow> Some (JObj py, seen'))
                 | Some (OList xs) \<Rightarrow>
                     (case conv_list dec2f h n (insert a seen) xs of
                        None \<Rightarrow> None
                      | Some (lst, seen') \<Rightarrow> Some (JArr lst, seen'))
                 | Some (OOther tname fs) \<Rightarrow>
                     (case conv_items dec2f h n (insert a seen) fs [(''$type'', JStr tname)] of
                        None \<Rightarrow> None
                      | Some (ob, seen') \<Rightarrow> Some (JObj ob, seen')))
          | _ \<Rightarrow>
              (case value_like dec2f x of
                 Some j \<Rightarrow> Some (j, seen)
               | None \<Rightarrow> None)))"
| "conv_items dec2f h n seen [] acc = Some (acc, seen)"
| "conv_items dec2f h n seen (kv # kvs) acc =
     (case conv dec2f h n seen (snd kv) of
        None \<Rightarrow> None
      | Some (j, seen') \<Rightarrow> conv_items dec2f h n seen' kvs (set_item (fst kv) j acc))"
| "conv_list dec2f h n seen [] = Some ([], seen)"
| "conv_list dec2f h n seen (x # xs) =
     (case conv dec2f h n seen x of
        None \<Rightarrow> None
      | Some (j, seen') \<Rightarrow>
          (case conv_list dec2f h n seen' xs of
             None \<Rightarrow> None
           | Some (js, seen'') \<Rightarrow> Some (j # js, seen'')))"

text \<open>\<^verbatim>\<open>to_jsonable(o)\<close>: \<^verbatim>\<open>seen = set()\<close>, then \<^verbatim>\<open>conv(o)\<close>. The fuel is one more than the
  number of objects, which is enough for every well-formed graph (shown below).\<close>

definition to_jsonable :: "(int \<Rightarrow> 'f) \<Rightarrow> 'f heap \<Rightarrow> 'f val \<Rightarrow> 'f json option" where
  "to_jsonable dec2f h x = map_option fst (conv dec2f h (Suc (length h)) {} x)"

subsection \<open>\<^verbatim>\<open>traverse_for_set\<close>\<close>








subsection \<open>\<^verbatim>\<open>set_value\<close>\<close>




subsection \<open>What a path addresses, in the words of the specification\<close>









text \<open>The number of objects of the heap that are not in \<^verbatim>\<open>seen\<close>: what bounds the depth
  of the recursion of \<^verbatim>\<open>conv\<close>.\<close>

definition unseen :: "'f heap \<Rightarrow> nat set \<Rightarrow> nat" where
  "unseen h seen = card {a. a < length h \<and> a \<notin> seen}"

section \<open>Properties\<close>

subsection \<open>Evaluation of the character classes\<close>


subsection \<open>Integers become the narrowest .NET type\<close>





subsection \<open>The literal coercer\<close>





subsection \<open>The path parser\<close>

text \<open>
  Claim C2, as the source has it. \<^verbatim>\<open>a.b[2].c\<close> parses to the steps field \<open>a\<close>, field
  \<open>b\<close>, index 2, field \<open>c\<close>, in that order; \<^verbatim>\<open>[0]\<close> parses to the single step index
  0, since the pattern takes an index (or a dotted field) at position 0 as well as a root
  identifier; \<^verbatim>\<open>a..b\<close> is refused with the error that reports the rest \<^verbatim>\<open>..b\<close>.
\<close>

theorem parse_path_examples:
  "parse_path ''a.b[2].c'' = Inr [Key ''a'', Key ''b'', Idx 2, Key ''c''] \<and>
   parse_path ''[0]'' = Inr [Idx 0] \<and>
   parse_path ''a..b'' = Inl (InvalidPathNear ''..b'')"
  by code_simp

text \<open>Claim C2 as stated asks \<^verbatim>\<open>[0]\<close> to be refused for want of a root identifier.
  The parser accepts it.\<close>

theorem parse_path_index_first_counterexample:
  "parse_path ''[0]'' = Inr [Idx 0] \<and> \<not> isl (parse_path ''[0]'')"
  by code_simp

subsection \<open>The type resolver\<close>




subsection \<open>A Node gives back what it captured\<close>

lemma set_item_fresh: "k \<notin> fst ` set d \<Longrightarrow> set_item k v d = d @ [(k, v)]"
  by (induction d) auto

lemma foldl_set_item_distinct:
  "distinct (map fst (d @ es)) \<Longrightarrow> foldl (\<lambda>d e. set_item (fst e) (snd e) d) d es = d @ es"
proof (induction es arbitrary: d)
  case Nil
  then show ?case by simp
next
  case (Cons e es)
  from Cons.prems have fresh: "fst e \<notin> fst ` set d" by auto
  from Cons.prems have "distinct (map fst ((d @ [e]) @ es))" by auto
  from Cons.IH[OF this] fresh show ?case by (simp add: set_item_fresh)
qed

lemma add_values_distinct:
  "distinct (map fst (si_entries info @ es)) \<Longrightarrow>
   add_values es info = Inr (info\<lparr>si_entries := si_entries info @ es\<rparr>)"
proof (induction es arbitrary: info)
  case Nil
  then show ?case by simp
next
  case (Cons e es)
  from Cons.prems have fresh: "\<not> ContainsKey (si_entries info) (fst e)"
    by (auto simp: ContainsKey_def)
  let ?info' = "info\<lparr>si_entries := si_entries info @ [(fst e, snd e)]\<rparr>"
  from Cons.prems have "distinct (map fst (si_entries ?info' @ es))" by auto
  from Cons.IH[OF this] fresh show ?case by (simp add: AddValue_def)
qed

text \<open>
  Claim C7. A Node built from the identity and the fields the engine presents (the field
  names distinct, as the engine's table has them), and then asked for its data on an
  empty table, writes every captured field with its name and value, in order, none
  dropped, renamed or added; it writes back each identity string that is not empty, and
  for an empty one it writes nothing, so that the table keeps what the engine had put
  there.
\<close>

theorem node_roundtrip:
  assumes "distinct (map fst (si_entries src))" and "si_entries fresh = []"
  shows "GetObjectData (Node_of_info src) fresh =
     Inr (fresh\<lparr> si_FullTypeName :=
                   (if si_FullTypeName src = [] then si_FullTypeName fresh else si_FullTypeName src),
                 si_AssemblyName :=
                   (if si_AssemblyName src = [] then si_AssemblyName fresh else si_AssemblyName src),
                 si_entries := si_entries src \<rparr>)"
proof -
  from assms(1) have d: "Data (Node_of_info src) = si_entries src"
    using foldl_set_item_distinct[of "[]" "si_entries src"] by (simp add: Node_of_info_def)
  show ?thesis
    using assms d
    by (simp add: GetObjectData_def Let_def IsNullOrEmpty_def Node_of_info_def add_values_distinct)
qed

theorem node_roundtrip_witness:
  "GetObjectData
     (Node_of_info \<lparr> si_FullTypeName = ''Everbyte.TextGame.Saving.PersData'', si_AssemblyName = [],
                     si_entries = [(''coins'', NInt32 5 :: real val), (''name'', NString ''Al'')] \<rparr>)
     \<lparr> si_FullTypeName = ''KatRoundtrip.Node'', si_AssemblyName = ''kat'', si_entries = [] \<rparr>
   = Inr \<lparr> si_FullTypeName = ''Everbyte.TextGame.Saving.PersData'', si_AssemblyName = ''kat'',
           si_entries = [(''coins'', NInt32 5), (''name'', NString ''Al'')] \<rparr>"
  using node_roundtrip[of
     "\<lparr> si_FullTypeName = ''Everbyte.TextGame.Saving.PersData'', si_AssemblyName = [],
        si_entries = [(''coins'', NInt32 5 :: real val), (''name'', NString ''Al'')] \<rparr>"
     "\<lparr> si_FullTypeName = ''KatRoundtrip.Node'', si_AssemblyName = ''kat'', si_entries = [] \<rparr>"]
  by simp

subsection \<open>The set of visited objects only grows\<close>

lemma conv_mono:
  "conv d h n s x = Some (j, s') \<Longrightarrow> s \<subseteq> s'"
  "conv_items d h n s kvs acc = Some (py, s') \<Longrightarrow> s \<subseteq> s'"
  "conv_list d h n s xs = Some (js, s') \<Longrightarrow> s \<subseteq> s'"
proof (induction d h n s x and d h n s kvs acc and d h n s xs arbitrary: j s' and py s' and js s'
       rule: conv_conv_items_conv_list.induct)
  case (1 dec2f h seen x)
  then show ?case by simp
next
  case (2 dec2f h n seen x)
  show ?case
  proof (cases "py_primitive x")
    case (Some p)
    with "2.prems" show ?thesis by simp
  next
    case None
    show ?thesis
    proof (cases x)
      case (NRef a)
      show ?thesis
      proof (cases "a \<in> seen")
        case True
        with "2.prems" None NRef show ?thesis by simp
      next
        case False
        show ?thesis
        proof (cases "lookup h a")
          case None
          with "2.prems" \<open>py_primitive x = None\<close> NRef False show ?thesis by simp
        next
          case (Some ob)
          show ?thesis
          proof (cases ob)
            case (ONode nd)
            with "2.prems" \<open>py_primitive x = None\<close> NRef False Some
            obtain py where "conv_items dec2f h n (insert a seen) (Data nd) [] = Some (py, s')"
              by (auto split: option.splits)
            from "2.IH"(1)[OF \<open>py_primitive x = None\<close> NRef False Some ONode this]
            show ?thesis by blast
          next
            case (ODict dd)
            with "2.prems" \<open>py_primitive x = None\<close> NRef False Some
            obtain py where "conv_items dec2f h n (insert a seen) dd [] = Some (py, s')"
              by (auto split: option.splits)
            from "2.IH"(2)[OF \<open>py_primitive x = None\<close> NRef False Some ODict this]
            show ?thesis by blast
          next
            case (OList xs)
            with "2.prems" \<open>py_primitive x = None\<close> NRef False Some
            obtain py where "conv_list dec2f h n (insert a seen) xs = Some (py, s')"
              by (auto split: option.splits)
            from "2.IH"(3)[OF \<open>py_primitive x = None\<close> NRef False Some OList this]
            show ?thesis by blast
          next
            case (OBytes bs)
            with "2.prems" \<open>py_primitive x = None\<close> NRef False Some show ?thesis by auto
          next
            case (OOther tn fs)
            with "2.prems" \<open>py_primitive x = None\<close> NRef False Some
            obtain py where "conv_items dec2f h n (insert a seen) fs [(''$type'', JStr tn)] = Some (py, s')"
              by (auto split: option.splits)
            from "2.IH"(4)[OF \<open>py_primitive x = None\<close> NRef False Some OOther this]
            show ?thesis by blast
          qed
        qed
      qed
    qed (use "2.prems" None in \<open>auto split: option.splits\<close>)
  qed
next
  case (3 dec2f h n seen acc)
  then show ?case by simp
next
  case (4 dec2f h n seen kv kvs acc)
  from "4.prems" obtain j s1 where c: "conv dec2f h n seen (snd kv) = Some (j, s1)"
    and r: "conv_items dec2f h n s1 kvs (set_item (fst kv) j acc) = Some (py, s')"
    by (auto split: option.splits)
  from "4.IH"(1)[OF c] "4.IH"(2)[OF c refl r] show ?case by blast
next
  case (5 dec2f h n seen)
  then show ?case by simp
next
  case (6 dec2f h n seen x xs)
  from "6.prems" obtain j s1 js1 where c: "conv dec2f h n seen x = Some (j, s1)"
    and r: "conv_list dec2f h n s1 xs = Some (js1, s')"
    by (auto split: option.splits)
  from "6.IH"(1)[OF c] "6.IH"(2)[OF c refl r] show ?case by blast
qed

subsection \<open>Enough fuel for every well-formed graph\<close>

lemma unseen_mono: "s \<subseteq> s' \<Longrightarrow> unseen h s' \<le> unseen h s"
  unfolding unseen_def by (rule card_mono) auto

lemma unseen_insert: "a < length h \<Longrightarrow> a \<notin> s \<Longrightarrow> unseen h (insert a s) < unseen h s"
  unfolding unseen_def by (rule psubset_card_mono) auto

lemma heap_ok_slots: "heap_ok h \<Longrightarrow> a < length h \<Longrightarrow> list_all (val_ok h) (slots (h ! a))"
  by (simp add: heap_ok_def list_all_length)

lemma not_primitive_cases:
  "py_primitive x = None \<Longrightarrow> (\<exists>a. x = NRef a) \<or> value_like d x \<noteq> None"
  by (cases x) (simp_all add: py_primitive_def value_like_def)

lemma conv_total:
  "heap_ok h \<Longrightarrow> val_ok h x \<Longrightarrow> unseen h s < n \<Longrightarrow> \<exists>r. conv d h n s x = Some r"
  "heap_ok h \<Longrightarrow> list_all (val_ok h) (map snd kvs) \<Longrightarrow> unseen h s < n \<Longrightarrow>
     \<exists>r. conv_items d h n s kvs acc = Some r"
  "heap_ok h \<Longrightarrow> list_all (val_ok h) xs \<Longrightarrow> unseen h s < n \<Longrightarrow> \<exists>r. conv_list d h n s xs = Some r"
proof (induction d h n s x and d h n s kvs acc and d h n s xs
       rule: conv_conv_items_conv_list.induct)
  case (1 dec2f h seen x)
  then show ?case by simp
next
  case (2 dec2f h n seen x)
  show ?case
  proof (cases "py_primitive x")
    case (Some p)
    then show ?thesis by simp
  next
    case None
    show ?thesis
    proof (cases "\<exists>a. x = NRef a")
      case False
      with not_primitive_cases[OF None, of dec2f] obtain j where "value_like dec2f x = Some j"
        by auto
      with None False show ?thesis by (cases x) simp_all
    next
      case True
      then obtain a where NRef: "x = NRef a" by blast
      with "2.prems" have a: "a < length h" by (simp add: val_ok_def)
      show ?thesis
      proof (cases "a \<in> seen")
        case True
        with None NRef show ?thesis by simp
      next
        case False
        from a have lk: "lookup h a = Some (h ! a)" by (simp add: lookup_def)
        from unseen_insert[OF a False] "2.prems"(3)
        have fuel: "unseen h (insert a seen) < n" by simp
        from heap_ok_slots[OF "2.prems"(1) a] have sl: "list_all (val_ok h) (slots (h ! a))" .
        show ?thesis
        proof (cases "h ! a")
          case (ONode nd)
          from sl ONode have "list_all (val_ok h) (map snd (Data nd))" by (simp add: slots_def)
          from "2.IH"(1)[OF None NRef False lk ONode "2.prems"(1) this fuel]
          show ?thesis using None NRef False lk ONode by auto
        next
          case (ODict dd)
          from sl ODict have "list_all (val_ok h) (map snd dd)" by (simp add: slots_def)
          from "2.IH"(2)[OF None NRef False lk ODict "2.prems"(1) this fuel]
          show ?thesis using None NRef False lk ODict by auto
        next
          case (OList xs)
          from sl OList have "list_all (val_ok h) xs" by (simp add: slots_def)
          from "2.IH"(3)[OF None NRef False lk OList "2.prems"(1) this fuel]
          show ?thesis using None NRef False lk OList by auto
        next
          case (OBytes bs)
          with None NRef False lk show ?thesis by simp
        next
          case (OOther tn fs)
          from sl OOther have "list_all (val_ok h) (map snd fs)" by (simp add: slots_def)
          from "2.IH"(4)[OF None NRef False lk OOther "2.prems"(1) this fuel]
          show ?thesis using None NRef False lk OOther by auto
        qed
      qed
    qed
  qed
next
  case (3 dec2f h n seen acc)
  then show ?case by simp
next
  case (4 dec2f h n seen kv kvs acc)
  from "4.prems" have v: "val_ok h (snd kv)" and vs: "list_all (val_ok h) (map snd kvs)" by simp_all
  from "4.IH"(1)[OF "4.prems"(1) v "4.prems"(3)]
  obtain j s1 where c: "conv dec2f h n seen (snd kv) = Some (j, s1)" by auto
  from conv_mono(1)[OF c] unseen_mono[of seen s1 h] "4.prems"(3)
  have "unseen h s1 < n" by simp
  from "4.IH"(2)[OF c refl "4.prems"(1) vs this] c show ?case by simp
next
  case (5 dec2f h n seen)
  then show ?case by simp
next
  case (6 dec2f h n seen x xs)
  from "6.prems" have v: "val_ok h x" and vs: "list_all (val_ok h) xs" by simp_all
  from "6.IH"(1)[OF "6.prems"(1) v "6.prems"(3)]
  obtain j s1 where c: "conv dec2f h n seen x = Some (j, s1)" by auto
  from conv_mono(1)[OF c] unseen_mono[of seen s1 h] "6.prems"(3)
  have "unseen h s1 < n" by simp
  from "6.IH"(2)[OF c refl "6.prems"(1) vs this] c show ?case by auto
qed

lemma unseen_empty: "unseen h {} = length h"
  by (simp add: unseen_def)

subsection \<open>More fuel changes nothing\<close>

text \<open>A call of \<^verbatim>\<open>conv\<close> that returns with some fuel returns the same with any more: the
  fuel bounds the depth of the recursion and is not part of the result.\<close>

lemma conv_fuel_Suc:
  "conv d h n s x = Some r \<Longrightarrow> conv d h (Suc n) s x = Some r"
  "conv_items d h n s kvs acc = Some q \<Longrightarrow> conv_items d h (Suc n) s kvs acc = Some q"
  "conv_list d h n s xs = Some t \<Longrightarrow> conv_list d h (Suc n) s xs = Some t"
proof (induction d h n s x and d h n s kvs acc and d h n s xs arbitrary: r and q and t
       rule: conv_conv_items_conv_list.induct)
  case (1 dec2f h seen x)
  then show ?case by simp
next
  case (2 dec2f h n seen x)
  show ?case
  proof (cases "py_primitive x")
    case (Some p)
    with "2.prems" show ?thesis by simp
  next
    case None
    show ?thesis
    proof (cases x)
      case (NRef a)
      show ?thesis
      proof (cases "a \<in> seen")
        case True
        with "2.prems" None NRef show ?thesis by simp
      next
        case False
        show ?thesis
        proof (cases "lookup h a")
          case None
          with "2.prems" \<open>py_primitive x = None\<close> NRef False show ?thesis by simp
        next
          case (Some ob)
          note pre = \<open>py_primitive x = None\<close> NRef False Some
          show ?thesis
          proof (cases ob)
            case (ONode nd)
            with "2.prems" pre obtain py s' where
              c: "conv_items dec2f h n (insert a seen) (Data nd) [] = Some (py, s')"
              by (auto split: option.splits)
            from "2.IH"(1)[OF pre ONode c] c "2.prems" pre ONode show ?thesis
              by (simp del: conv.simps(2) add: conv.simps(2)[of dec2f h n]
                    conv.simps(2)[of dec2f h "Suc n"])
          next
            case (ODict dd)
            with "2.prems" pre obtain py s' where
              c: "conv_items dec2f h n (insert a seen) dd [] = Some (py, s')"
              by (auto split: option.splits)
            from "2.IH"(2)[OF pre ODict c] c "2.prems" pre ODict show ?thesis
              by (simp del: conv.simps(2) add: conv.simps(2)[of dec2f h n]
                    conv.simps(2)[of dec2f h "Suc n"])
          next
            case (OList xs)
            with "2.prems" pre obtain py s' where
              c: "conv_list dec2f h n (insert a seen) xs = Some (py, s')"
              by (auto split: option.splits)
            from "2.IH"(3)[OF pre OList c] c "2.prems" pre OList show ?thesis
              by (simp del: conv.simps(2) add: conv.simps(2)[of dec2f h n]
                    conv.simps(2)[of dec2f h "Suc n"])
          next
            case (OBytes bs)
            with "2.prems" pre show ?thesis by auto
          next
            case (OOther tn fs)
            with "2.prems" pre obtain py s' where
              c: "conv_items dec2f h n (insert a seen) fs [(''$type'', JStr tn)] = Some (py, s')"
              by (auto split: option.splits)
            from "2.IH"(4)[OF pre OOther c] c "2.prems" pre OOther show ?thesis
              by (simp del: conv.simps(2) add: conv.simps(2)[of dec2f h n]
                    conv.simps(2)[of dec2f h "Suc n"])
          qed
        qed
      qed
    qed (use "2.prems" None in \<open>auto split: option.splits\<close>)
  qed
next
  case (3 dec2f h n seen acc)
  then show ?case by simp
next
  case (4 dec2f h n seen kv kvs acc)
  from "4.prems" obtain j s1 where c: "conv dec2f h n seen (snd kv) = Some (j, s1)"
    and r: "conv_items dec2f h n s1 kvs (set_item (fst kv) j acc) = Some q"
    by (auto split: option.splits)
  from "4.IH"(1)[OF c] "4.IH"(2)[OF c refl r] show ?case
    by (simp del: conv.simps(2))
next
  case (5 dec2f h n seen)
  then show ?case by simp
next
  case (6 dec2f h n seen x xs)
  from "6.prems" obtain j s1 js1 s2 where c: "conv dec2f h n seen x = Some (j, s1)"
    and r: "conv_list dec2f h n s1 xs = Some (js1, s2)" and t: "t = (j # js1, s2)"
    by (auto split: option.splits)
  from "6.IH"(1)[OF c] "6.IH"(2)[OF c refl r] t show ?case
    by (simp del: conv.simps(2))
qed

lemma conv_fuel_mono: "conv d h n s x = Some r \<Longrightarrow> n \<le> m \<Longrightarrow> conv d h m s x = Some r"
proof (induction m)
  case 0
  then show ?case by simp
next
  case (Suc m)
  show ?case
  proof (cases "n = Suc m")
    case True
    with Suc.prems show ?thesis by simp
  next
    case False
    with Suc.prems have "n \<le> m" by simp
    from conv_fuel_Suc(1)[OF Suc.IH[OF Suc.prems(1) this]] show ?thesis .
  qed
qed

lemma to_jsonable_fuel:
  assumes "heap_ok h" and "val_ok h x" and "Suc (length h) \<le> m"
  shows "map_option fst (conv d h m {} x) = to_jsonable d h x"
proof -
  have "unseen h {} < Suc (length h)" by (simp add: unseen_empty)
  from conv_total(1)[OF assms(1,2) this, of d]
  obtain r where r: "conv d h (Suc (length h)) {} x = Some r" by blast
  from conv_fuel_mono[OF r assms(3)] r show ?thesis by (simp add: to_jsonable_def)
qed

subsection \<open>Visited references\<close>






subsection \<open>The projection of a Node\<close>





lemma keys_dict_update: "fst ` set (dict_update d py) = fst ` set d \<union> fst ` set py"
proof (induction py arbitrary: d)
  case Nil
  then show ?case by (simp add: dict_update_def)
next
  case (Cons p py)
  have k: "\<And>k v d. fst ` set (set_item k v d) = insert k (fst ` set (d :: ('a \<times> 'b) list))"
  proof -
    fix k v and d :: "('a \<times> 'b) list"
    show "fst ` set (set_item k v d) = insert k (fst ` set d)"
      by (induction d) auto
  qed
  have "dict_update d (p # py) = dict_update (set_item (fst p) (snd p) d) py"
    by (simp add: dict_update_def)
  then show ?case by (auto simp: Cons.IH k)
qed




subsection \<open>The projection ends, cycles or not\<close>



subsection \<open>A shared object is shown once\<close>



subsection \<open>What the traversal returns\<close>





subsection \<open>What the two stores do\<close>







subsection \<open>The loop against the steps of the specification\<close>













subsection \<open>Assignments\<close>









end
